theory Spec2Isabelle
  imports Main "HOL-Library.AList"
begin

section \<open>String primitives of the runtime\<close>

text \<open>
  Strings are lists of code units; \<^typ>\<open>char\<close> covers the code units below 256
  (the Latin-1 range of the source language's strings). The functions below are the
  string and array methods that the sources call, written as the language defines them.
\<close>

abbreviation NL :: char where "NL \<equiv> CHR 0x0A"
abbreviation TAB :: char where "TAB \<equiv> CHR 0x09"

text \<open>
  The white space and line terminator code units below 256: tab, line feed, vertical
  tab, form feed, carriage return, space and no-break space. Both \<open>trim\<close> and the
  regular expression class \<open>\s\<close> use this set.
\<close>

definition isSpace :: "char \<Rightarrow> bool" where
  "isSpace c =
     (c = CHR 0x09 \<or> c = CHR 0x0A \<or> c = CHR 0x0B \<or> c = CHR 0x0C \<or> c = CHR 0x0D
      \<or> c = CHR 0x20 \<or> c = CHR 0xA0)"

definition trimStart :: "string \<Rightarrow> string" where
  "trimStart s = dropWhile isSpace s"

definition trimEnd :: "string \<Rightarrow> string" where
  "trimEnd s = rev (dropWhile isSpace (rev s))"

definition trim :: "string \<Rightarrow> string" where
  "trim s = trimEnd (trimStart s)"

text \<open>\<open>s.startsWith(p)\<close>.\<close>

definition startsWith :: "string \<Rightarrow> string \<Rightarrow> bool" where
  "startsWith s p = (take (length p) s = p)"

text \<open>
  \<open>s.split(c)\<close> for a separator of one code unit: the pieces between the
  separators, in order; the empty string gives one empty piece.
\<close>

fun split :: "string \<Rightarrow> char \<Rightarrow> string list" where
  "split [] c = [[]]"
| "split (x # xs) c =
     (if x = c then [] # split xs c
      else (case split xs c of
              [] \<Rightarrow> [[x]]
            | l # ls \<Rightarrow> (x # l) # ls))"

text \<open>\<open>parts.join(sep)\<close>.\<close>

fun join :: "string list \<Rightarrow> string \<Rightarrow> string" where
  "join [] sep = []"
| "join [l] sep = l"
| "join (l # ls) sep = l @ sep @ join ls sep"

text \<open>
  \<open>xs.slice(start)\<close> on arrays and strings: a negative start counts from the end,
  and the start is clamped to the length.
\<close>

definition slice :: "'a list \<Rightarrow> int \<Rightarrow> 'a list" where
  "slice xs start =
     (let len = int (length xs);
          k = (if start < 0 then max (len + start) 0 else min start len)
      in drop (nat k) xs)"

text \<open>\<open>xs.findIndex(p)\<close>: the first index whose element satisfies \<open>p\<close>, or \<open>-1\<close>.\<close>

fun findIndex :: "'a list \<Rightarrow> ('a \<Rightarrow> bool) \<Rightarrow> int" where
  "findIndex [] p = - 1"
| "findIndex (x # xs) p =
     (if p x then 0 else (let i = findIndex xs p in if i < 0 then - 1 else i + 1))"

text \<open>
  \<open>s.replace(pat, rep)\<close> for a string pattern and a replacement without \<open>$\<close>:
  the first occurrence of \<open>pat\<close> is replaced.
\<close>

fun replace :: "string \<Rightarrow> string \<Rightarrow> string \<Rightarrow> string" where
  "replace [] pat rep = (if pat = [] then rep else [])"
| "replace (c # cs) pat rep =
     (if startsWith (c # cs) pat then rep @ drop (length pat) (c # cs)
      else c # replace cs pat rep)"

text \<open>Reading an array element: \<open>undefined\<close> past the end is \<open>None\<close>.\<close>

fun at :: "'a list \<Rightarrow> nat \<Rightarrow> 'a option" where
  "at [] i = None"
| "at (x # xs) 0 = Some x"
| "at (x # xs) (Suc i) = at xs i"

text \<open>Lower case of a code unit below 256: A to Z, and the capital letters of Latin-1.\<close>

definition toLowerCase_char :: "char \<Rightarrow> char" where
  "toLowerCase_char c =
     (let n = of_char c :: nat in
      if (65 \<le> n \<and> n \<le> 90) \<or> (192 \<le> n \<and> n \<le> 222 \<and> n \<noteq> 215)
      then char_of (n + 32) else c)"

definition toLowerCase :: "string \<Rightarrow> string" where
  "toLowerCase s = map toLowerCase_char s"

datatype error = Error string | TypeError

section \<open>The argument parser (args.ts)\<close>

text \<open>
  The class \<open>Flags\<close> wraps a \<open>Map<string, string | boolean>\<close>. A map of the
  runtime keeps its keys in insertion order and \<open>set\<close> on a present key replaces the
  value in place, which is \<^const>\<open>AList.update\<close> on an association list.
\<close>

datatype flag_value = Str string | Bool bool

type_synonym Flags = "(string \<times> flag_value) list"

definition Flags_new :: Flags where
  "Flags_new = []"

definition Flags_set :: "string \<Rightarrow> flag_value \<Rightarrow> Flags \<Rightarrow> Flags" where
  "Flags_set key v m = AList.update key v m"

definition Flags_size :: "Flags \<Rightarrow> nat" where
  "Flags_size m = length m"

definition Flags_get :: "Flags \<Rightarrow> string \<Rightarrow> flag_value option" where
  "Flags_get m key = map_of m key"

definition getBooleanOrThrow :: "Flags \<Rightarrow> string \<Rightarrow> error + bool" where
  "getBooleanOrThrow m key =
     (case Flags_get m key of
        None \<Rightarrow> Inl (Error (''Missing required flag: '' @ key))
      | Some (Str s) \<Rightarrow> Inl (Error (''Flag '' @ key @ '' is not a boolean''))
      | Some (Bool b) \<Rightarrow> Inr b)"

definition getStringOrThrow :: "Flags \<Rightarrow> string \<Rightarrow> error + string" where
  "getStringOrThrow m key =
     (case Flags_get m key of
        None \<Rightarrow> Inl (Error (''Missing required flag: '' @ key))
      | Some (Bool b) \<Rightarrow> Inl (Error (''Flag '' @ key @ '' is not a string''))
      | Some (Str s) \<Rightarrow> Inr s)"

definition getBooleanOrDefault :: "Flags \<Rightarrow> string \<Rightarrow> bool \<Rightarrow> error + bool" where
  "getBooleanOrDefault m key defaultValue =
     (case Flags_get m key of
        None \<Rightarrow> Inr defaultValue
      | Some (Str s) \<Rightarrow> Inl (Error (''Flag '' @ key @ '' is not a boolean''))
      | Some (Bool b) \<Rightarrow> Inr b)"

definition getStringOrDefault :: "Flags \<Rightarrow> string \<Rightarrow> string \<Rightarrow> error + string" where
  "getStringOrDefault m key defaultValue =
     (case Flags_get m key of
        None \<Rightarrow> Inr defaultValue
      | Some (Bool b) \<Rightarrow> Inl (Error (''Flag '' @ key @ '' is not a string''))
      | Some (Str s) \<Rightarrow> Inr s)"

definition getStringAsOptionOrDefault ::
  "Flags \<Rightarrow> string \<Rightarrow> string list \<Rightarrow> string \<Rightarrow> error + string" where
  "getStringAsOptionOrDefault m key options defaultValue =
     (case getStringOrDefault m key defaultValue of
        Inl e \<Rightarrow> Inl e
      | Inr v \<Rightarrow> if v \<notin> set options then Inr defaultValue else Inr v)"

text \<open>
  The two flag branches of \<open>parse\<close> run the same three statements on the token
  with its dash prefix sliced off: \<open>const [key, value] = rest.split('=')\<close>,
  \<open>if (!key) continue\<close>, \<open>flags.set(key, value ?? true)\<close>. Only the first two
  pieces of the split are read; an \<open>undefined\<close> or empty key leaves the flags as
  they are. The result is the new flag map.
\<close>

definition setFlag :: "string \<Rightarrow> Flags \<Rightarrow> Flags" where
  "setFlag rest flags =
     (let parts = split rest CHR ''=''; key = at parts 0; v = at parts 1 in
      case key of
        None \<Rightarrow> flags
      | Some k \<Rightarrow>
          if k = [] then flags
          else Flags_set k (case v of None \<Rightarrow> Bool True | Some s \<Rightarrow> Str s) flags)"

text \<open>The loop \<open>for (const arg of argv)\<close> of \<open>parse\<close>, with its two accumulators.\<close>

fun parse_loop :: "Flags \<Rightarrow> string list \<Rightarrow> string list \<Rightarrow> Flags \<times> string list" where
  "parse_loop flags args [] = (flags, args)"
| "parse_loop flags args (arg # argv) =
     (if startsWith arg ''--'' then parse_loop (setFlag (slice arg 2) flags) args argv
      else if startsWith arg ''-'' then parse_loop (setFlag (slice arg 1) flags) args argv
      else parse_loop flags (args @ [arg]) argv)"

definition parse :: "string list \<Rightarrow> Flags \<times> string list" where
  "parse argv = parse_loop Flags_new [] argv"

section \<open>Utilities (util.ts)\<close>

text \<open>
  \<open>confirm\<close> prints the message and reads one line from the terminal; the line read
  is the parameter \<open>answer\<close>.
\<close>

record confirm_options =
  acceptDefault :: bool

definition confirm :: "string \<Rightarrow> confirm_options \<Rightarrow> string \<Rightarrow> bool" where
  "confirm message options answer =
     (if acceptDefault options \<and> answer = [] then True
      else startsWith (toLowerCase answer) ''y'')"

text \<open>
  The values that \<open>json\<close> is applied to: \<open>null\<close>, booleans, integral numbers,
  strings, arrays and objects. An object is the list of its own properties in
  enumeration order; a property whose value is \<open>undefined\<close> is left out, as the
  serializer skips it.
\<close>

datatype json_value =
    JNull
  | JBool bool
  | JNumber int
  | JString string
  | JArray "json_value list"
  | JObject "(string \<times> json_value) list"

text \<open>
  Decimal digits of a number, as \<open>Number.prototype.toString\<close> prints an integer that
  a number holds exactly and prints without an exponent (magnitude at most \<open>2^53\<close>).
  Larger integers are outside this model.
\<close>

fun digits :: "nat \<Rightarrow> string" where
  "digits n =
     (if n < 10 then [''0123456789'' ! n]
      else digits (n div 10) @ [''0123456789'' ! (n mod 10)])"

declare digits.simps [simp del]

definition NumberToString :: "int \<Rightarrow> string" where
  "NumberToString i = (if i < 0 then ''-'' @ digits (nat (- i)) else digits (nat i))"

text \<open>
  \<open>QuoteJSONString\<close>: the two-character escapes, \<open>\u00XX\<close> for the other control
  characters, every other code unit as it is.
\<close>

definition hex4 :: "nat \<Rightarrow> string" where
  "hex4 n = ''00'' @ [''0123456789abcdef'' ! (n div 16 mod 16), ''0123456789abcdef'' ! (n mod 16)]"

definition QuoteJSONChar :: "char \<Rightarrow> string" where
  "QuoteJSONChar c =
     (if c = CHR 0x08 then [CHR 0x5C, CHR ''b'']
      else if c = CHR 0x09 then [CHR 0x5C, CHR ''t'']
      else if c = CHR 0x0A then [CHR 0x5C, CHR ''n'']
      else if c = CHR 0x0C then [CHR 0x5C, CHR ''f'']
      else if c = CHR 0x0D then [CHR 0x5C, CHR ''r'']
      else if c = CHR 0x22 then [CHR 0x5C, CHR 0x22]
      else if c = CHR 0x5C then [CHR 0x5C, CHR 0x5C]
      else if (of_char c :: nat) < 32 then [CHR 0x5C, CHR ''u''] @ hex4 (of_char c)
      else [c])"

definition QuoteJSONString :: "string \<Rightarrow> string" where
  "QuoteJSONString s = [CHR 0x22] @ concat (map QuoteJSONChar s) @ [CHR 0x22]"

text \<open>
  \<open>SerializeJSONProperty\<close> with \<open>SerializeJSONArray\<close> and \<open>SerializeJSONObject\<close>
  of \<open>JSON.stringify\<close>, for the indentation unit \<open>gap\<close> and the current
  indentation \<open>indent\<close>.
\<close>

fun SerializeJSONProperty :: "string \<Rightarrow> string \<Rightarrow> json_value \<Rightarrow> string" where
  "SerializeJSONProperty gap indent JNull = ''null''"
| "SerializeJSONProperty gap indent (JBool b) = (if b then ''true'' else ''false'')"
| "SerializeJSONProperty gap indent (JNumber i) = NumberToString i"
| "SerializeJSONProperty gap indent (JString s) = QuoteJSONString s"
| "SerializeJSONProperty gap indent (JArray vs) =
     (let stepback = indent;
          indent = indent @ gap;
          partial = map (SerializeJSONProperty gap indent) vs
      in if partial = [] then ''[]''
         else if gap = [] then ''['' @ join partial '','' @ '']''
         else ''['' @ [NL] @ indent @ join partial ('','' @ [NL] @ indent) @ [NL] @ stepback @ '']'')"
| "SerializeJSONProperty gap indent (JObject ps) =
     (let stepback = indent;
          indent = indent @ gap;
          partial = map (\<lambda>(k, v). QuoteJSONString k @ '':'' @ (if gap \<noteq> [] then '' '' else [])
                                  @ SerializeJSONProperty gap indent v) ps
      in if partial = [] then ''{}''
         else if gap = [] then ''{'' @ join partial '','' @ ''}''
         else ''{'' @ [NL] @ indent @ join partial ('','' @ [NL] @ indent) @ [NL] @ stepback @ ''}'')"

text \<open>\<open>json(value) = JSON.stringify(value, null, '\t')\<close>.\<close>

definition json :: "json_value \<Rightarrow> string" where
  "json v = SerializeJSONProperty [TAB] [] v"

text \<open>
  The argument of the tagged template function: a plain string or the array of the
  literal parts of a template. \<open>code\<close> reads the parts only; interpolated values
  are not used.
\<close>

datatype template_arg = Plain string | Strings "string list"

fun getTemplateStrings :: "template_arg \<Rightarrow> string list" where
  "getTemplateStrings (Plain s) = [s]"
| "getTemplateStrings (Strings ss) = ss"

text \<open>
  \<open>lines[0]!.match(/^\s*/)?.[0]\<close>: reading \<open>match\<close> of an absent first line
  throws a \<open>TypeError\<close>; the pattern itself matches every string.
\<close>

definition code :: "template_arg \<Rightarrow> error + string" where
  "code arg =
     (let strings = getTemplateStrings arg;
          allLines = split (trimEnd (join strings [])) NL;
          indexOfFirstNonEmptyLine = findIndex allLines (\<lambda>line. trim line \<noteq> []);
          lines = slice allLines indexOfFirstNonEmptyLine
      in case at lines 0 of
           None \<Rightarrow> Inl TypeError
         | Some line0 \<Rightarrow>
             (let indent = takeWhile isSpace line0
              in Inr (join (map (\<lambda>line. slice line (int (length indent))) lines) [NL])))"

section \<open>Version-control identity (git.ts)\<close>

text \<open>
  \<open>getGitUser\<close> runs \<open>git config --get-regexp user.\<close> without throwing on a
  non-zero exit; \<open>text\<close> is what the tool printed. The object built by
  \<open>Object.fromEntries\<close> is the association list of its properties, in the order
  in which the keys were first written; as a mapping it is the object, while the
  enumeration order of the runtime (integer-like keys first) is not modelled.
\<close>

definition fromEntries :: "(string \<times> string) list \<Rightarrow> (string \<times> string) list" where
  "fromEntries entries = fold (\<lambda>(k, v) obj. AList.update k v obj) entries []"

definition gitLine :: "string \<Rightarrow> error + (string \<times> string)" where
  "gitLine line =
     (let parts = split line CHR '' '' in
      case at parts 0 of
        None \<Rightarrow> Inl TypeError
      | Some key \<Rightarrow> Inr (replace key ''user.'' [], join (slice parts 1) '' ''))"

fun mapE :: "('a \<Rightarrow> error + 'b) \<Rightarrow> 'a list \<Rightarrow> error + 'b list" where
  "mapE f [] = Inr []"
| "mapE f (x # xs) =
     (case f x of
        Inl e \<Rightarrow> Inl e
      | Inr y \<Rightarrow> (case mapE f xs of Inl e \<Rightarrow> Inl e | Inr ys \<Rightarrow> Inr (y # ys)))"

definition getGitUser :: "string \<Rightarrow> error + (string \<times> string) list" where
  "getGitUser text =
     (case mapE gitLine (split (trim text) NL) of
        Inl e \<Rightarrow> Inl e
      | Inr entries \<Rightarrow> Inr (fromEntries entries))"

section \<open>The generated manifest (index.ts)\<close>

definition packageManagers :: "string list" where
  "packageManagers = [''bun'', ''npm'', ''yarn'', ''pnpm'']"

definition PACKAGE_MANAGER :: "Flags \<Rightarrow> error + string" where
  "PACKAGE_MANAGER flags = getStringAsOptionOrDefault flags ''p'' packageManagers ''bun''"

text \<open>
  The object passed to \<open>json\<close> for \<open>package.json\<close>. \<open>user\<close> is the identity
  object; \<open>author\<close> is \<open>undefined\<close>, hence left out, when \<open>user.name\<close> is absent
  or empty, and so is \<open>email\<close> inside it when \<open>user.email\<close> is absent.
\<close>

definition author :: "(string \<times> string) list \<Rightarrow> (string \<times> json_value) list" where
  "author user =
     (case map_of user ''name'' of
        None \<Rightarrow> []
      | Some name \<Rightarrow>
          if name = [] then []
          else [(''author'',
                 JObject ((''name'', JString name) #
                          (case map_of user ''email'' of
                             None \<Rightarrow> []
                           | Some email \<Rightarrow> [(''email'', JString email)])))])"

definition scripts :: "string \<Rightarrow> json_value" where
  "scripts pm =
     JObject
       [(''build'', JString (if pm = ''npm'' then ''npx tsup'' else pm @ '' tsup'')),
        (''release'', JString (pm @ '' run build && '' @ pm @ '' publish''))]"

definition packageJSON :: "string \<Rightarrow> (string \<times> string) list \<Rightarrow> string \<Rightarrow> json_value" where
  "packageJSON moduleName user pm =
     JObject
       ([(''name'', JString moduleName),
         (''version'', JString ''0.0.1''),
         (''description'', JString ''Description''),
         (''keywords'', JArray [])]
        @ author user @
        [(''license'', JString ''MIT''),
         (''type'', JString ''module''),
         (''scripts'', scripts pm),
         (''exports'',
            JObject
              [(''./package.json'', JString ''./package.json''),
               (''.'', JObject [(''import'', JString ''./dist/index.js''),
                               (''require'', JString ''./dist/index.cjs'')])]),
         (''files'', JArray [JString ''LICENSE'', JString ''README.md'', JString ''dist''])])"

text \<open>
  Reading a property of the manifest, and \<open>packageJson.scripts.build\<close> as the
  integration test reads it.
\<close>

fun property :: "json_value \<Rightarrow> string \<Rightarrow> json_value option" where
  "property (JObject ps) k = map_of ps k"
| "property v k = None"

definition scripts_build :: "json_value \<Rightarrow> json_value option" where
  "scripts_build packageJson =
     (case property packageJson ''scripts'' of
        None \<Rightarrow> None
      | Some s \<Rightarrow> property s ''build'')"

section \<open>The specification's reading of the confirmation\<close>

text \<open>
  The specification words the answer test as: accepted when an empty answer is allowed
  and the input is empty; otherwise accepted exactly when the trimmed, case-insensitive
  input begins with \<open>y\<close>. This definition follows those words, for comparison with
  \<^const>\<open>confirm\<close>.
\<close>

definition confirm_spec :: "confirm_options \<Rightarrow> string \<Rightarrow> bool" where
  "confirm_spec options answer =
     (if acceptDefault options \<and> answer = [] then True
      else startsWith (toLowerCase (trim answer)) ''y'')"

section \<open>Properties of the runtime primitives\<close>

lemma slice_nonneg: "0 \<le> k \<Longrightarrow> slice xs k = drop (nat k) xs"
  by (simp add: slice_def Let_def min_def)

lemma slice_numeral [simp]: "slice xs (numeral n) = drop (numeral n) xs"
  by (simp add: slice_nonneg)

lemma slice_0 [simp]: "slice xs 0 = xs"
  by (simp add: slice_nonneg)

lemma slice_1 [simp]: "slice xs 1 = drop 1 xs"
  by (simp add: slice_nonneg)

lemma slice_int [simp]: "slice xs (int n) = drop n xs"
  by (simp add: slice_nonneg)

lemma split_not_Nil [simp]: "split s c \<noteq> []"
  by (induction s) (auto split: list.splits)

lemma split_no_sep: "c \<notin> set k \<Longrightarrow> split k c = [k]"
  by (induction k) auto

lemma split_key: "c \<notin> set k \<Longrightarrow> split (k @ c # v) c = k # split v c"
  by (induction k) auto

lemma at_split_0: "at (split v c) 0 = Some (takeWhile (\<lambda>x. x \<noteq> c) v)"
  by (induction v) (auto split: list.splits)

section \<open>Properties of the argument parser\<close>

lemma parse_loop_append:
  "parse_loop flags args (xs @ ys) =
     parse_loop (fst (parse_loop flags args xs)) (snd (parse_loop flags args xs)) ys"
  by (induction xs arbitrary: flags args) auto

lemma map_of_setFlag:
  "map_of (setFlag rest flags) = map_of flags ++ map_of (setFlag rest [])"
  by (auto simp: setFlag_def Flags_set_def Let_def update_conv' split: option.splits)

lemma map_of_parse_loop:
  "map_of (fst (parse_loop flags args xs)) = map_of flags ++ map_of (fst (parse_loop [] [] xs))"
proof (induction xs arbitrary: flags args)
  case Nil
  then show ?case by simp
next
  case (Cons x xs)
  show ?case
    apply (simp only: parse_loop.simps)
    apply (simp split: if_splits)
    by (metis Cons.IH map_of_setFlag map_add_assoc)
qed

lemma set_update_cases: "(k', v') \<in> set (AList.update k v al) \<Longrightarrow> (k', v') = (k, v) \<or> (k', v') \<in> set al"
  by (induction al) (auto split: if_splits)

lemma setFlag_values:
  "Bool False \<notin> snd ` set flags \<Longrightarrow> Bool False \<notin> snd ` set (setFlag rest flags)"
  by (auto simp: setFlag_def Flags_set_def Let_def image_iff
           split: option.splits if_splits dest!: set_update_cases)

lemma parse_loop_values:
  "Bool False \<notin> snd ` set flags \<Longrightarrow> Bool False \<notin> snd ` set (fst (parse_loop flags args argv))"
proof (induction argv arbitrary: flags args)
  case Nil
  then show ?case by simp
next
  case (Cons arg argv)
  then show ?case
    using setFlag_values by (simp split: if_splits)
qed

lemma setFlag_empty_key: "rest = [] \<or> hd rest = CHR ''='' \<Longrightarrow> setFlag rest flags = flags"
  by (cases rest) (auto simp: setFlag_def Let_def split: option.splits list.splits)

lemma setFlag_key:
  "key \<noteq> [] \<Longrightarrow> CHR ''='' \<notin> set key \<Longrightarrow> setFlag key flags = Flags_set key (Bool True) flags"
  by (simp add: setFlag_def split_no_sep)

lemma setFlag_key_value:
  "key \<noteq> [] \<Longrightarrow> CHR ''='' \<notin> set key \<Longrightarrow>
   setFlag (key @ CHR ''='' # v) flags = Flags_set key (Str (takeWhile (\<lambda>c. c \<noteq> CHR ''='') v)) flags"
  using at_split_0[of v "CHR ''=''"]
  by (cases "split v CHR ''=''") (auto simp add: setFlag_def split_key)

text \<open>
  C6: a token whose key is empty once the dash prefix is removed (a bare \<open>--\<close>, a bare
  \<open>-\<close>, or \<open>--=value\<close> and \<open>-=value\<close>) changes neither the flags nor the
  positional arguments, wherever it stands in the token list; the tokens after a
  \<open>--\<close> are parsed as they would be without it.
\<close>

theorem parse_empty_key:
  assumes "tok = ''--'' \<or> tok = ''-'' \<or> tok = ''--='' @ v \<or> tok = ''-='' @ v"
  shows "parse (pre @ tok # post) = parse (pre @ post)"
proof -
  have "parse_loop flags args (tok # post) = parse_loop flags args post" for flags args
    using assms by (auto simp: startsWith_def setFlag_empty_key)
  then show ?thesis
    by (simp add: parse_def parse_loop_append)
qed

text \<open>
  C8: every value stored in the flags that \<open>parse\<close> returns is a string or the
  boolean \<open>true\<close>, whatever the token list; \<open>false\<close> is never stored.
\<close>

theorem parse_values:
  "(k, v) \<in> set (fst (parse argv)) \<Longrightarrow> (\<exists>s. v = Str s) \<or> v = Bool True"
proof -
  assume mem: "(k, v) \<in> set (fst (parse argv))"
  have "Bool False \<notin> snd ` set (fst (parse argv))"
    unfolding parse_def Flags_new_def by (rule parse_loop_values) simp
  with mem have "v \<noteq> Bool False"
    by force
  then show ?thesis
    by (cases v) auto
qed

lemmas parse_eval =
  parse_def Flags_new_def Flags_set_def Flags_get_def setFlag_def startsWith_def

text \<open>
  C1 (amended): for a non-empty key without \<open>=\<close>, the token \<open>--key=value\<close> maps
  \<open>key\<close> to the part of \<open>value\<close> before its first \<open>=\<close>, which is all of
  \<open>value\<close> when it holds no \<open>=\<close>; the token \<open>--key\<close> maps \<open>key\<close> to the
  boolean \<open>true\<close>. This holds at any position of the token list, provided that the
  tokens after it do not set \<open>key\<close> again.
\<close>

theorem parse_key_value:
  assumes "key \<noteq> []" and "CHR ''='' \<notin> set key"
    and "Flags_get (fst (parse post)) key = None"
  shows "Flags_get (fst (parse (pre @ (''--'' @ key @ ''='' @ v) # post))) key
           = Some (Str (takeWhile (\<lambda>c. c \<noteq> CHR ''='') v))
       \<and> (CHR ''='' \<notin> set v \<longrightarrow>
            Flags_get (fst (parse (pre @ (''--'' @ key @ ''='' @ v) # post))) key = Some (Str v))
       \<and> Flags_get (fst (parse (pre @ (''--'' @ key) # post))) key = Some (Bool True)"
proof -
  have later: "map_of (fst (parse_loop [] [] post)) key = None"
    using assms(3) by (simp add: parse_def Flags_new_def Flags_get_def)
  have get: "Flags_get (fst (parse (pre @ tok # post))) key
               = map_of (fst (parse_loop (fst (parse pre)) (snd (parse pre)) [tok])) key" for tok
  proof -
    have "parse (pre @ tok # post)
            = parse_loop (fst (parse_loop (fst (parse pre)) (snd (parse pre)) [tok]))
                (snd (parse_loop (fst (parse pre)) (snd (parse pre)) [tok])) post"
      using parse_loop_append[of "[]" "[]" "pre @ [tok]" post]
            parse_loop_append[of "[]" "[]" pre "[tok]"]
      by (simp add: parse_def Flags_new_def)
    then show ?thesis
      using later
        map_of_parse_loop[of "fst (parse_loop (fst (parse pre)) (snd (parse pre)) [tok])"
          "snd (parse_loop (fst (parse pre)) (snd (parse pre)) [tok])" post]
      by (simp add: Flags_get_def map_add_def)
  qed
  have kv: "Flags_get (fst (parse (pre @ (''--'' @ key @ ''='' @ v) # post))) key
              = Some (Str (takeWhile (\<lambda>c. c \<noteq> CHR ''='') v))"
    using setFlag_key_value[OF assms(1,2), of v]
    by (simp add: get startsWith_def Flags_set_def update_conv')
  have k: "Flags_get (fst (parse (pre @ (''--'' @ key) # post))) key = Some (Bool True)"
    using setFlag_key[OF assms(1,2)]
    by (simp add: get startsWith_def Flags_set_def update_conv')
  have "CHR ''='' \<notin> set v \<Longrightarrow> takeWhile (\<lambda>c. c \<noteq> CHR ''='') v = v"
    by (induction v) auto
  with kv k show ?thesis by simp
qed

theorem parse_key_value_witness:
  "''port'' \<noteq> [] \<and> CHR ''='' \<notin> set ''port''
   \<and> Flags_get (fst (parse [''out.txt''])) ''port'' = None
   \<and> Flags_get (fst (parse [''-v'', ''--port=3000'', ''out.txt''])) ''port'' = Some (Str ''3000'')
   \<and> Flags_get (fst (parse [''-v'', ''--port'', ''out.txt''])) ''port'' = Some (Bool True)"
proof -
  have h1: "''port'' \<noteq> []" and h2: "CHR ''='' \<notin> set ''port''"
    by simp_all
  have h3: "Flags_get (fst (parse [''out.txt''])) ''port'' = None"
    by (simp add: parse_eval)
  show ?thesis
    using h1 h2 h3 parse_key_value[OF h1 h2 h3, of "[''-v'']" "''3000''"]
    by simp
qed

text \<open>
  C1 as stated fails for a value that holds \<open>=\<close>: \<open>--a=b=c\<close> maps \<open>a\<close> to
  \<open>b\<close>, not to \<open>b=c\<close>.
\<close>

theorem parse_value_with_equals_counterexample:
  "Flags_get (fst (parse [''--a=b=c''])) ''a'' = Some (Str ''b'')
   \<and> Flags_get (fst (parse [''--a=b=c''])) ''a'' \<noteq> Some (Str ''b=c'')"
  by (simp add: parse_eval)

text \<open>
  C9: a single-dash token \<open>-r\<close>, where \<open>r\<close> is non-empty, holds no \<open>=\<close> and does
  not start with a dash, sets the one flag \<open>r\<close> to \<open>true\<close> and nothing else; alone
  on the command line it gives exactly the flags \<open>{r: true}\<close>. It is never split
  into one flag per character.
\<close>

theorem parse_single_dash:
  assumes "r \<noteq> []" and "CHR ''='' \<notin> set r" and "hd r \<noteq> CHR ''-''"
  shows "parse (pre @ [CHR ''-'' # r]) = (Flags_set r (Bool True) (fst (parse pre)), snd (parse pre))
       \<and> parse [CHR ''-'' # r] = ([(r, Bool True)], [])"
proof -
  have nodd: "\<not> startsWith (CHR ''-'' # r) ''--''"
    using assms(1,3) by (cases r) (auto simp: startsWith_def)
  have step: "parse_loop flags args [CHR ''-'' # r] = (Flags_set r (Bool True) flags, args)"
    for flags args
    using nodd setFlag_key[OF assms(1,2)] by (simp add: startsWith_def)
  have "parse (pre @ [CHR ''-'' # r]) = (Flags_set r (Bool True) (fst (parse pre)), snd (parse pre))"
    unfolding parse_def parse_loop_append step by simp
  moreover have "parse [CHR ''-'' # r] = ([(r, Bool True)], [])"
    unfolding parse_def step by (simp add: Flags_new_def Flags_set_def)
  ultimately show ?thesis by simp
qed

theorem parse_single_dash_witness:
  "''abc'' \<noteq> [] \<and> CHR ''='' \<notin> set ''abc'' \<and> hd ''abc'' \<noteq> CHR ''-''
   \<and> parse [''-abc''] = ([(''abc'', Bool True)], [])
   \<and> Flags_get (fst (parse [''-abc''])) ''a'' = None"
proof -
  have h1: "''abc'' \<noteq> []" and h2: "CHR ''='' \<notin> set ''abc''" and h3: "hd ''abc'' \<noteq> CHR ''-''"
    by simp_all
  show ?thesis
    using h1 h2 h3 parse_single_dash[OF h1 h2 h3, of "[]"]
    by (simp add: parse_eval)
qed

theorem parse_empty_key_witness:
  "parse [''--'', ''--=value''] = parse [''--=value'']
   \<and> parse [''--=value''] = parse []
   \<and> parse [''-'', ''x''] = parse [''x'']
   \<and> parse [''--'', ''-y''] = ([(''y'', Bool True)], [])"
  using parse_empty_key[of "''--''" "[]" "[]" "[''--=value'']"]
        parse_empty_key[of "''--=value''" "''value''" "[]" "[]"]
        parse_empty_key[of "''-''" "[]" "[]" "[''x'']"]
        parse_empty_key[of "''--''" "[]" "[]" "[''-y'']"]
  by (simp add: parse_eval)

theorem parse_values_witness:
  "(''abc'', Bool True) \<in> set (fst (parse [''-abc'', ''--p=npm'']))
   \<and> ((\<exists>s. Bool True = Str s) \<or> Bool True = Bool True)"
proof -
  have h: "(''abc'', Bool True) \<in> set (fst (parse [''-abc'', ''--p=npm'']))"
    by (simp add: parse_eval)
  show ?thesis
    using h parse_values[OF h] by simp
qed


section \<open>Lower case and trimming\<close>

lemma char_eq_code: "(c = d) = ((of_char c :: nat) = of_char d)"
  by simp

lemma of_char_toLowerCase_char:
  "(of_char (toLowerCase_char c) :: nat) =
     (if (65 \<le> (of_char c :: nat) \<and> (of_char c :: nat) \<le> 90)
         \<or> (192 \<le> (of_char c :: nat) \<and> (of_char c :: nat) \<le> 222 \<and> (of_char c :: nat) \<noteq> 215)
      then of_char c + 32 else of_char c)"
  by (simp add: toLowerCase_char_def Let_def of_char_of)

lemma toLowerCase_char_y: "toLowerCase_char c = CHR ''y'' \<longleftrightarrow> c = CHR ''y'' \<or> c = CHR ''Y''"
  unfolding char_eq_code[of _ "CHR ''y''"] char_eq_code[of _ "CHR ''Y''"] of_char_toLowerCase_char
  by (simp split: if_splits) arith

lemma trimEnd_Cons: "\<not> isSpace c \<Longrightarrow> trimEnd (c # s) = c # trimEnd s"
  by (simp add: trimEnd_def dropWhile_append)

lemma trimEnd_Nil [simp]: "trimEnd [] = []"
  by (simp add: trimEnd_def)

lemma startsWith_y: "startsWith s ''y'' \<longleftrightarrow> (\<exists>rest. s = CHR ''y'' # rest)"
  by (cases s) (auto simp: startsWith_def)

section \<open>Properties of the confirmation\<close>

text \<open>
  C2 (amended): \<open>confirm\<close> accepts when an empty answer is allowed and the line read
  is empty; otherwise it accepts exactly when the line as read, lowercased but not
  trimmed, begins with \<open>y\<close>, that is when its first character is \<open>y\<close> or \<open>Y\<close>.
  On a line that does not start with white space this is the trimmed reading of the
  specification.
\<close>

theorem confirm_first_char:
  "confirm message options answer
     = ((acceptDefault options \<and> answer = [])
        \<or> (\<exists>rest. answer = CHR ''y'' # rest \<or> answer = CHR ''Y'' # rest))
   \<and> ((answer = [] \<or> \<not> isSpace (hd answer)) \<longrightarrow>
        confirm message options answer = confirm_spec options answer)"
proof -
  have first: "startsWith (toLowerCase answer) ''y''
                 = (\<exists>rest. answer = CHR ''y'' # rest \<or> answer = CHR ''Y'' # rest)"
    by (cases answer) (auto simp: startsWith_def toLowerCase_def toLowerCase_char_y)
  have agree: "confirm message options answer = confirm_spec options answer"
    if "answer = [] \<or> \<not> isSpace (hd answer)"
  proof (cases answer)
    case Nil
    then show ?thesis
      by (simp add: confirm_def confirm_spec_def trim_def trimStart_def)
  next
    case (Cons c rest)
    with that have "\<not> isSpace c" by simp
    then have "trim answer = c # trimEnd rest"
      using Cons by (simp add: trim_def trimStart_def trimEnd_Cons)
    then show ?thesis
      using Cons by (simp add: confirm_def confirm_spec_def startsWith_def toLowerCase_def)
  qed
  show ?thesis
    using first agree by (auto simp: confirm_def)
qed

theorem confirm_first_char_witness:
  "confirm ''Create? (Y/n) '' \<lparr>acceptDefault = True\<rparr> ''Yes'' = True
   \<and> confirm_spec \<lparr>acceptDefault = True\<rparr> ''Yes'' = True
   \<and> confirm ''Create? (Y/n) '' \<lparr>acceptDefault = True\<rparr> ''no'' = False"
  using confirm_first_char[of "''Create? (Y/n) ''" "\<lparr>acceptDefault = True\<rparr>" "''Yes''"]
        confirm_first_char[of "''Create? (Y/n) ''" "\<lparr>acceptDefault = True\<rparr>" "''no''"]
  by (simp add: isSpace_def confirm_spec_def startsWith_def toLowerCase_def toLowerCase_char_y
        trim_def trimStart_def trimEnd_def)

text \<open>
  C2 as stated fails on a line with leading white space: the answer \<open>" y"\<close> is rejected,
  while its trimmed, lowercased form begins with \<open>y\<close>.
\<close>

theorem confirm_untrimmed_counterexample:
  "confirm ''Create? (Y/n) '' \<lparr>acceptDefault = True\<rparr> '' y'' = False
   \<and> confirm_spec \<lparr>acceptDefault = True\<rparr> '' y'' = True"
  by (simp add: confirm_def confirm_spec_def toLowerCase_def toLowerCase_char_y startsWith_def
        trim_def trimStart_def trimEnd_def isSpace_def)

section \<open>Properties of the identity lookup\<close>

text \<open>
  C3: when the tool prints nothing, the text is empty; it splits into one empty line,
  which becomes the entry with the empty key and the empty value. The object returned
  has that one key.
\<close>

theorem getGitUser_no_entries: "getGitUser [] = Inr [([], [])]"
  by (simp add: getGitUser_def trim_def trimEnd_def trimStart_def gitLine_def fromEntries_def slice_def)

section \<open>Properties of the serializer\<close>

lemmas json_eval =
  json_def QuoteJSONString_def QuoteJSONChar_def NumberToString_def digits.simps

text \<open>
  C4 (amended): \<open>json({a: 1, b: 2})\<close> is an opening brace, the two fields \<open>"a": 1\<close>
  and \<open>"b": 2\<close> each on its own line behind one tab, the first followed by a comma,
  and a closing brace: four lines, separated by three line feeds.
\<close>

theorem json_a_b:
  "json (JObject [(''a'', JNumber 1), (''b'', JNumber 2)])
     = ''{'' @ [NL, TAB, CHR 0x22] @ ''a'' @ [CHR 0x22] @ '': 1,'' @
       [NL, TAB, CHR 0x22] @ ''b'' @ [CHR 0x22] @ '': 2'' @ [NL] @ ''}''
   \<and> split (json (JObject [(''a'', JNumber 1), (''b'', JNumber 2)])) NL
     = [''{'',
        [TAB, CHR 0x22] @ ''a'' @ [CHR 0x22] @ '': 1,'',
        [TAB, CHR 0x22] @ ''b'' @ [CHR 0x22] @ '': 2'',
        ''}'']
   \<and> length (split (json (JObject [(''a'', JNumber 1), (''b'', JNumber 2)])) NL) = 4"
  by (simp add: json_eval)

text \<open>C4 as stated fails on the line count: the output does not have three lines.\<close>

theorem json_three_lines_counterexample:
  "length (split (json (JObject [(''a'', JNumber 1), (''b'', JNumber 2)])) NL) \<noteq> 3"
  by (simp add: json_eval)

section \<open>Properties of the manifest\<close>

lemma map_of_author: "k \<noteq> ''author'' \<Longrightarrow> map_of (author user) k = None"
  by (simp add: author_def split: option.splits)

lemma PACKAGE_MANAGER_supported:
  "PACKAGE_MANAGER flags = Inr pm \<Longrightarrow> pm \<in> set packageManagers"
  by (auto simp: PACKAGE_MANAGER_def getStringAsOptionOrDefault_def getStringOrDefault_def
        packageManagers_def split: sum.splits option.splits flag_value.splits if_splits)

text \<open>
  C7: for every supported package manager the \<open>build\<close> script of the manifest is the
  manager's name followed by \<open>tsup\<close>, except for \<open>npm\<close>, where it is \<open>npx tsup\<close>
  and so differs from that pattern.
\<close>

theorem build_script:
  assumes "pm \<in> set packageManagers"
  shows "scripts_build (packageJSON moduleName user pm)
           = Some (JString (if pm = ''npm'' then ''npx tsup'' else pm @ '' tsup''))
       \<and> (pm = ''npm'' \<longrightarrow> scripts_build (packageJSON moduleName user pm) \<noteq> Some (JString (pm @ '' tsup'')))"
proof -
  have "property (packageJSON moduleName user p) ''scripts'' = Some (scripts p)" for p
    by (simp add: packageJSON_def map_of_author map_add_def)
  then have "scripts_build (packageJSON moduleName user p)
               = Some (JString (if p = ''npm'' then ''npx tsup'' else p @ '' tsup''))" for p
    by (simp add: scripts_build_def scripts_def)
  then show ?thesis
    by simp
qed

theorem build_script_witness:
  "''npm'' \<in> set packageManagers \<and> ''pnpm'' \<in> set packageManagers
   \<and> PACKAGE_MANAGER (fst (parse [''my-lib'', ''--p=npm'', ''-y''])) = Inr ''npm''
   \<and> scripts_build (packageJSON ''my-lib'' [] ''npm'') = Some (JString ''npx tsup'')
   \<and> scripts_build (packageJSON ''my-lib'' [] ''pnpm'') = Some (JString ''pnpm tsup'')"
proof -
  have h1: "''npm'' \<in> set packageManagers" and h2: "''pnpm'' \<in> set packageManagers"
    by (simp_all add: packageManagers_def)
  have p: "PACKAGE_MANAGER (fst (parse [''my-lib'', ''--p=npm'', ''-y''])) = Inr ''npm''"
    by (simp add: PACKAGE_MANAGER_def getStringAsOptionOrDefault_def getStringOrDefault_def
          packageManagers_def parse_def Flags_new_def Flags_set_def Flags_get_def setFlag_def startsWith_def)
  show ?thesis
    using h1 h2 p build_script[OF h1, of "''my-lib''" "[]"] build_script[OF h2, of "''my-lib''" "[]"]
    by simp
qed


section \<open>Splitting, joining and searching\<close>

lemma join_Cons: "ls \<noteq> [] \<Longrightarrow> join (l # ls) sep = l @ sep @ join ls sep"
  by (cases ls) simp_all

lemma join_Cons_Cons: "join ((x # l) # ls) sep = x # join (l # ls) sep"
  by (cases ls) simp_all

lemma join_split: "join (split s c) [c] = s"
proof (induction s)
  case Nil
  show ?case by simp
next
  case (Cons x xs)
  show ?case
  proof (cases "x = c")
    case True
    then show ?thesis using Cons.IH by (simp add: join_Cons)
  next
    case False
    obtain l ls where sp: "split xs c = l # ls"
      by (cases "split xs c") simp_all
    with False Cons.IH show ?thesis by (simp add: join_Cons_Cons)
  qed
qed

lemma split_join:
  "ls \<noteq> [] \<Longrightarrow> \<forall>l\<in>set ls. c \<notin> set l \<Longrightarrow> split (join ls [c]) c = ls"
proof (induction ls)
  case Nil
  then show ?case by simp
next
  case (Cons l ls)
  show ?case
  proof (cases ls)
    case Nil
    with Cons.prems show ?thesis by (simp add: split_no_sep)
  next
    case (Cons l' ls')
    with Cons.IH Cons.prems have "split (join ls [c]) c = ls"
      by simp
    with Cons Cons.prems show ?thesis
      by (simp add: split_key)
  qed
qed

lemma trimEnd_id: "s \<noteq> [] \<Longrightarrow> \<not> isSpace (last s) \<Longrightarrow> trimEnd s = s"
  by (cases s rule: rev_cases) (simp_all add: trimEnd_def)

lemma trimEnd_empty_iff: "trimEnd s = [] \<longleftrightarrow> (\<forall>x\<in>set s. isSpace x)"
  by (simp add: trimEnd_def dropWhile_eq_Nil_conv)

lemma trim_empty_iff: "trim s = [] \<longleftrightarrow> (\<forall>x\<in>set s. isSpace x)"
proof
  assume "trim s = []"
  then have all: "\<forall>x\<in>set (dropWhile isSpace s). isSpace x"
    by (simp add: trim_def trimStart_def trimEnd_empty_iff)
  have "dropWhile isSpace s = []"
  proof (cases "dropWhile isSpace s")
    case Nil
    then show ?thesis .
  next
    case (Cons y ys)
    then have "\<not> isSpace y" by (metis hd_dropWhile list.sel(1) list.distinct(1))
    with all Cons show ?thesis by simp
  qed
  then show "\<forall>x\<in>set s. isSpace x"
    by (simp add: dropWhile_eq_Nil_conv)
next
  assume "\<forall>x\<in>set s. isSpace x"
  then show "trim s = []"
    by (auto simp: trim_def trimStart_def trimEnd_def dest: set_dropWhileD)
qed

lemma findIndex_eq:
  "findIndex xs p =
     (if \<exists>x\<in>set xs. p x then int (length (takeWhile (\<lambda>x. \<not> p x) xs)) else - 1)"
  by (induction xs) (auto simp: Let_def)

lemma slice_minus_1: "xs \<noteq> [] \<Longrightarrow> slice xs (- 1) = [last xs]"
proof -
  assume ne: "xs \<noteq> []"
  then have "nat (max (int (length xs) + - 1) 0) = length xs - 1"
    by (cases xs) simp_all
  moreover have "drop (length xs - 1) xs = [last xs]"
    using ne by (cases xs rule: rev_cases) simp_all
  ultimately show ?thesis
    by (simp add: slice_def Let_def)
qed

lemma slice_findIndex:
  "xs \<noteq> [] \<Longrightarrow>
   slice xs (findIndex xs p) =
     (if \<exists>x\<in>set xs. p x then dropWhile (\<lambda>x. \<not> p x) xs else [last xs])"
  by (simp add: findIndex_eq slice_minus_1 dropWhile_eq_drop)

section \<open>Properties of the dedent\<close>

lemma at_0: "xs \<noteq> [] \<Longrightarrow> at xs 0 = Some (hd xs)"
  by (cases xs) simp_all

lemma isSpace_NL [simp]: "isSpace NL"
  by (simp add: isSpace_def)

text \<open>The lines that \<open>code\<close> keeps, and its result in terms of them.\<close>

lemma code_lines:
  assumes "allLines = split (trimEnd (join (getTemplateStrings arg) [])) NL"
    and "lines = (if \<exists>l\<in>set allLines. trim l \<noteq> []
                  then dropWhile (\<lambda>l. \<not> trim l \<noteq> []) allLines else [last allLines])"
  shows "lines \<noteq> []"
    and "code arg = Inr (join (map (drop (length (takeWhile isSpace (hd lines)))) lines) [NL])"
proof -
  have ne: "allLines \<noteq> []"
    by (simp add: assms(1))
  have sl: "slice allLines (findIndex allLines (\<lambda>line. trim line \<noteq> [])) = lines"
    unfolding assms(2) by (rule slice_findIndex[OF ne])
  show lines: "lines \<noteq> []"
    unfolding assms(2) by (simp add: dropWhile_eq_Nil_conv)
  show "code arg = Inr (join (map (drop (length (takeWhile isSpace (hd lines)))) lines) [NL])"
    unfolding code_def Let_def assms(1)[symmetric] sl
    by (simp add: at_0[OF lines])
qed

lemma code_Plain_start:
  assumes "\<not> isSpace c"
  shows "code (Plain (c # r)) = Inr (trimEnd (c # r))"
proof -
  define t where "t = trimEnd r"
  have te: "trimEnd (c # r) = c # t"
    using assms by (simp add: trimEnd_Cons t_def)
  have cNL: "c \<noteq> NL"
    using assms by auto
  obtain l ls where sp: "split t NL = l # ls"
    by (cases "split t NL") simp_all
  have all: "split (c # t) NL = (c # l) # ls"
    using cNL sp by simp
  have nonblank: "trim (c # l) \<noteq> []"
    using assms by (simp add: trim_empty_iff)
  have a1: "(c # l) # ls = split (trimEnd (join (getTemplateStrings (Plain (c # r))) [])) NL"
    using all te by (simp del: split.simps)
  have a2: "(c # l) # ls = (if \<exists>l'\<in>set ((c # l) # ls). trim l' \<noteq> []
                  then dropWhile (\<lambda>l'. \<not> trim l' \<noteq> []) ((c # l) # ls) else [last ((c # l) # ls)])"
    using nonblank by simp
  have "code (Plain (c # r))
          = Inr (join (map (drop (length (takeWhile isSpace (hd ((c # l) # ls))))) ((c # l) # ls)) [NL])"
    by (rule code_lines(2)[OF a1 a2])
  also have "\<dots> = Inr (join (split (c # t) NL) [NL])"
    unfolding all using assms by simp
  finally show ?thesis
    by (simp add: join_split te del: split.simps)
qed

lemma code_output:
  "\<exists>out. code arg = Inr out \<and> (out = [] \<or> \<not> isSpace (hd out))"
proof -
  define allLines where "allLines = split (trimEnd (join (getTemplateStrings arg) [])) NL"
  define lines where "lines = (if \<exists>l\<in>set allLines. trim l \<noteq> []
                  then dropWhile (\<lambda>l. \<not> trim l \<noteq> []) allLines else [last allLines])"
  note cl = code_lines[OF allLines_def lines_def]
  have ne: "allLines \<noteq> []"
    by (simp add: allLines_def)
  show ?thesis
  proof (cases "\<exists>l\<in>set allLines. trim l \<noteq> []")
    case False
    then have "trim (last allLines) = []"
      using ne last_in_set by blast
    then have "takeWhile isSpace (last allLines) = last allLines"
      by (simp add: trim_empty_iff)
    then have "drop (length (takeWhile isSpace (last allLines))) (last allLines) = []"
      by (simp del: takeWhile_eq_all_conv)
    moreover have "lines = [last allLines]"
      using False by (simp add: lines_def)
    ultimately have "code arg = Inr []"
      by (simp add: cl(2) del: drop_eq_Nil)
    then show ?thesis by simp
  next
    case True
    then have ld: "lines = dropWhile (\<lambda>l. \<not> trim l \<noteq> []) allLines"
      by (simp add: lines_def)
    obtain l0 rest where lr: "lines = l0 # rest"
      using cl(1) by (cases lines) simp_all
    have "l0 = hd (dropWhile (\<lambda>l. \<not> trim l \<noteq> []) allLines)"
      using ld lr by (metis list.sel(1))
    moreover have "dropWhile (\<lambda>l. \<not> trim l \<noteq> []) allLines \<noteq> []"
      using ld lr by (metis list.distinct(1))
    ultimately have "trim l0 \<noteq> []"
      using hd_dropWhile[of "\<lambda>l. \<not> trim l \<noteq> []" allLines] by blast
    then have "dropWhile isSpace l0 \<noteq> []"
      by (simp add: trim_empty_iff dropWhile_eq_Nil_conv)
    then obtain c r where cr: "dropWhile isSpace l0 = c # r"
      by (cases "dropWhile isSpace l0") simp_all
    then have c: "\<not> isSpace c"
      using hd_dropWhile[of isSpace l0] by simp
    have "drop (length (takeWhile isSpace l0)) l0 = c # r"
      using cr by (simp add: dropWhile_eq_drop)
    then have "code arg = Inr (c # join (r # map (drop (length (takeWhile isSpace l0))) rest) [NL])"
      by (simp add: cl(2) lr join_Cons_Cons)
    with c show ?thesis by simp
  qed
qed

text \<open>
  C5 (amended): \<open>code\<close> always returns, and applying it to its own output gives that
  output with its trailing white space removed. The output is reproduced unchanged
  exactly when it does not end in white space.
\<close>

theorem code_twice:
  "\<exists>out. code arg = Inr out \<and> code (Plain out) = Inr (trimEnd out)
         \<and> (code (Plain out) = Inr out) = (trimEnd out = out)"
proof -
  obtain out where out: "code arg = Inr out" and shape: "out = [] \<or> \<not> isSpace (hd out)"
    using code_output by blast
  have "code (Plain out) = Inr (trimEnd out)"
  proof (cases out)
    case Nil
    have "code (Plain []) = Inr []"
      by (simp add: code_def slice_def trim_def trimStart_def)
    with Nil show ?thesis by simp
  next
    case (Cons c r)
    with shape show ?thesis
      by (simp add: code_Plain_start)
  qed
  with out show ?thesis by auto
qed

text \<open>
  C5 as stated fails on \<open>"  a\nb"\<close>: it dedents to \<open>"a\n"\<close>, which ends in white
  space and dedents to \<open>"a"\<close>.
\<close>

theorem code_not_idempotent_counterexample:
  "code (Plain (''  a'' @ [NL] @ ''b'')) = Inr (''a'' @ [NL])
   \<and> code (Plain (''a'' @ [NL])) = Inr ''a''
   \<and> code (Plain (''a'' @ [NL])) \<noteq> Inr (''a'' @ [NL])"
  by (simp add: code_def slice_def trim_def trimStart_def trimEnd_def isSpace_def)

lemma last_join:
  "ls \<noteq> [] \<Longrightarrow> last ls \<noteq> [] \<Longrightarrow> join ls sep \<noteq> [] \<and> last (join ls sep) = last (last ls)"
proof (induction ls)
  case Nil
  then show ?case by simp
next
  case (Cons l ls)
  show ?case
  proof (cases ls)
    case Nil
    with Cons.prems show ?thesis by simp
  next
    case (Cons l' ls')
    with Cons.IH Cons.prems have "join ls sep \<noteq> [] \<and> last (join ls sep) = last (last ls)"
      by simp
    with Cons show ?thesis
      by (simp add: join_Cons)
  qed
qed

text \<open>
  C10: let the input be blank lines, then a first non-blank line \<open>line0\<close>, then any
  lines \<open>rest\<close>, the last one ending in a character that is not white space. Every
  line from \<open>line0\<close> on loses as many leading characters as \<open>line0\<close> has leading
  white space, whatever those characters are; a line indented less than \<open>line0\<close>
  loses content.
\<close>

theorem code_fixed_count:
  assumes "\<forall>l\<in>set blanks. trim l = []"
    and "trim line0 \<noteq> []"
    and "\<forall>l\<in>set (blanks @ line0 # rest). NL \<notin> set l"
    and "last (line0 # rest) \<noteq> []"
    and "\<not> isSpace (last (last (line0 # rest)))"
  shows "code (Plain (join (blanks @ line0 # rest) [NL]))
           = Inr (join (map (drop (length (takeWhile isSpace line0))) (line0 # rest)) [NL])"
proof -
  define s where "s = join (blanks @ line0 # rest) [NL]"
  have "last (blanks @ line0 # rest) = last (line0 # rest)"
    by simp
  then have "s \<noteq> [] \<and> last s = last (last (line0 # rest))"
    unfolding s_def using last_join[of "blanks @ line0 # rest" "[NL]"] assms(4) by simp
  then have te: "trimEnd s = s"
    using assms(5) by (simp add: trimEnd_id)
  have a1: "blanks @ line0 # rest = split (trimEnd (join (getTemplateStrings (Plain s)) [])) NL"
    using split_join[of "blanks @ line0 # rest" NL] assms(3) by (simp add: te[unfolded s_def] s_def)
  have "dropWhile (\<lambda>l. \<not> trim l \<noteq> []) (blanks @ line0 # rest) = line0 # rest"
    using assms(1,2) by (simp add: dropWhile_append2)
  then have a2: "line0 # rest = (if \<exists>l\<in>set (blanks @ line0 # rest). trim l \<noteq> []
                  then dropWhile (\<lambda>l. \<not> trim l \<noteq> []) (blanks @ line0 # rest)
                  else [last (blanks @ line0 # rest)])"
    using assms(2) by auto
  show ?thesis
    using code_lines(2)[OF a1 a2] by (simp add: s_def)
qed

text \<open>
  In \<open>"\n  a\nbcd"\<close> the second line loses \<open>bc\<close>, which is not white space.
\<close>

theorem code_fixed_count_witness:
  "trim [] = [] \<and> trim ''  a'' \<noteq> []
   \<and> NL \<notin> set ''  a'' \<and> NL \<notin> set ''bcd''
   \<and> last (''  a'' # [''bcd'']) \<noteq> [] \<and> \<not> isSpace (last (last (''  a'' # [''bcd''])))
   \<and> code (Plain ([NL] @ ''  a'' @ [NL] @ ''bcd'')) = Inr (''a'' @ [NL] @ ''d'')"
proof -
  have h1: "\<forall>l\<in>set [[]]. trim l = []"
    by (simp add: trim_def trimStart_def)
  have h2: "trim ''  a'' \<noteq> []"
    by (simp add: trim_def trimStart_def trimEnd_def isSpace_def)
  have h3: "\<forall>l\<in>set ([[]] @ ''  a'' # [''bcd'']). NL \<notin> set l"
    by simp
  have h4: "last (''  a'' # [''bcd'']) \<noteq> []"
    by simp
  have h5: "\<not> isSpace (last (last (''  a'' # [''bcd''])))"
    by (simp add: isSpace_def)
  have "code (Plain ([NL] @ ''  a'' @ [NL] @ ''bcd'')) = Inr (''a'' @ [NL] @ ''d'')"
    using code_fixed_count[OF h1 h2 h3 h4 h5] by (simp add: isSpace_def)
  with h1 h2 h3 h4 h5 show ?thesis
    by simp
qed

end
